theory Spec2Isabelle
  imports Main "HOL-Library.Sublist" "HOL-Library.Word"
begin

section \<open>Shared vocabulary\<close>

text \<open>
  A Go \<^verbatim>\<open>interface{}\<close> value is either the nil interface or a value with a dynamic
  type; it is modelled as an \<open>option\<close>, \<open>None\<close> being nil.  A Go \<^verbatim>\<open>error\<close> is the
  same kind of thing: \<open>'e option\<close>, \<open>None\<close> being the nil error.

  A run-time panic of the Go code is a value of its own, so that "the call returns" is
  something the model can say.
\<close>

datatype panic = NilPointerDereference | IndexOutOfRange

section \<open>internal/sqladapter/exql/hash.go\<close>

text \<open>
  \<^verbatim>\<open>type hash struct { v atomic.Value }\<close>.  An \<^verbatim>\<open>atomic.Value\<close> holds nothing
  until the first \<^verbatim>\<open>Store\<close>; this file only ever stores strings in it.
\<close>

record hash =
  v :: "string option"

text \<open>The zero value \<^verbatim>\<open>hash{}\<close>, as every embedding struct gets it.\<close>

definition hash_zero :: hash where
  "hash_zero = \<lparr>v = None\<rparr>"

text \<open>
  Lines 15-16: \<^verbatim>\<open>v := h.v.Load(); if r, ok := v.(string); ok && r != ""\<close>.  The result
  is the string to return when the condition holds.
\<close>

definition loaded :: "hash \<Rightarrow> string option" where
  "loaded h = (case v h of None \<Rightarrow> None | Some r \<Rightarrow> if r \<noteq> [] then Some r else None)"

text \<open>
  \<^verbatim>\<open>func (h *hash) Hash(i interface{}) string\<close>.  The two functions the body calls
  are not part of this file and are parameters: \<open>TypeOf_String\<close> is
  \<^verbatim>\<open>reflect.TypeOf(i).String()\<close> on a non-nil \<open>i\<close>, \<open>cache_Hash\<close> is
  \<^verbatim>\<open>cache.Hash(i)\<close>.  On the nil interface \<^verbatim>\<open>reflect.TypeOf\<close> returns nil and the
  method call on it panics; that happens only when line 19 is reached.  The cell is
  returned updated.
\<close>

definition Hash ::
  "('a \<Rightarrow> string) \<Rightarrow> ('a \<Rightarrow> string) \<Rightarrow> hash \<Rightarrow> 'a option \<Rightarrow> panic + (string \<times> hash)" where
  "Hash TypeOf_String cache_Hash h i =
     (case loaded h of
        Some r \<Rightarrow> Inr (r, h)
      | None \<Rightarrow>
          (case i of
             None \<Rightarrow> Inl NilPointerDereference
           | Some x \<Rightarrow>
               (let s = TypeOf_String x @ '':'' @ cache_Hash x
                in Inr (s, h\<lparr>v := Some s\<rparr>))))"

text \<open>\<^verbatim>\<open>func (h *hash) Reset() { h.v.Store("") }\<close>\<close>

definition Reset :: "hash \<Rightarrow> hash" where
  "Reset h = h\<lparr>v := Some []\<rparr>"

text \<open>
  The life of one cell: a sequence of \<^verbatim>\<open>Hash\<close> and \<^verbatim>\<open>Reset\<close> calls on it.  \<open>run\<close>
  performs them in order and collects what the \<^verbatim>\<open>Hash\<close> calls returned; a panic ends
  the run.
\<close>

datatype 'a hash_call = HashCall "'a option" | ResetCall

fun run ::
  "('a \<Rightarrow> string) \<Rightarrow> ('a \<Rightarrow> string) \<Rightarrow> hash \<Rightarrow> 'a hash_call list
     \<Rightarrow> panic + (string list \<times> hash)" where
  "run ts ch h [] = Inr ([], h)"
| "run ts ch h (ResetCall # cs) = run ts ch (Reset h) cs"
| "run ts ch h (HashCall i # cs) =
     (case Hash ts ch h i of
        Inl p \<Rightarrow> Inl p
      | Inr (s, h') \<Rightarrow>
          (case run ts ch h' cs of
             Inl p \<Rightarrow> Inl p
           | Inr (ss, h'') \<Rightarrow> Inr (s # ss, h'')))"

text \<open>The number of \<^verbatim>\<open>Hash\<close> calls in a sequence.\<close>

fun hash_calls :: "'a hash_call list \<Rightarrow> nat" where
  "hash_calls [] = 0"
| "hash_calls (ResetCall # cs) = hash_calls cs"
| "hash_calls (HashCall i # cs) = Suc (hash_calls cs)"

text \<open>
  \<open>given_like ts ch a cs\<close>: every \<^verbatim>\<open>Hash\<close> call of \<open>cs\<close> passes a non-nil value with
  the type name and the content hash of \<open>a\<close>.
\<close>

fun given_like :: "('a \<Rightarrow> string) \<Rightarrow> ('a \<Rightarrow> string) \<Rightarrow> 'a \<Rightarrow> 'a hash_call list \<Rightarrow> bool" where
  "given_like ts ch a [] = True"
| "given_like ts ch a (ResetCall # cs) = given_like ts ch a cs"
| "given_like ts ch a (HashCall None # cs) = False"
| "given_like ts ch a (HashCall (Some x) # cs) =
     (ts x = ts a \<and> ch x = ch a \<and> given_like ts ch a cs)"

text \<open>
  The invariant of a cell that has only been given values with the fingerprint \<open>s\<close>: it
  holds nothing that \<^verbatim>\<open>Hash\<close> would return, or it holds \<open>s\<close>.
\<close>

definition consistent :: "hash \<Rightarrow> string \<Rightarrow> bool" where
  "consistent h s = (loaded h = None \<or> loaded h = Some s)"

section \<open>mssql/collection.go\<close>

text \<open>
  \<^verbatim>\<open>Insert\<close> talks to the database through \<^verbatim>\<open>t.d\<close> and the query builder.  Every
  such call is recorded, with what it returned, in a log that \<^verbatim>\<open>Insert\<close> extends; the
  log is the only view of the backend the model has.

  \<^item> \<open>QueryRowEv q args r\<close>: \<^verbatim>\<open>t.d.QueryRow(q, args...)\<close> followed by \<^verbatim>\<open>row.Scan\<close> of
    one integer.  \<open>r\<close> is \<open>Inl err\<close> when \<^verbatim>\<open>QueryRow\<close> failed, \<open>Inr (Inl err)\<close> when
    \<^verbatim>\<open>Scan\<close> failed, and \<open>Inr (Inr n)\<close> when \<open>n\<close> was scanned.
  \<^item> \<open>ExecEv q r\<close>: \<^verbatim>\<open>t.d.Exec(q)\<close>, \<open>r\<close> its error.
  \<^item> \<open>InsertExecEv tbl cols vals r\<close>:
    \<^verbatim>\<open>t.d.InsertInto(tbl).Columns(cols...).Values(vals...).Exec()\<close>, \<open>r\<close> its error.
  \<^item> \<open>InsertReturningEv tbl cols vals keys r\<close>: the same statement with
    \<^verbatim>\<open>.Returning(keys...).Iterator().One(&keyMap)\<close>; \<open>r\<close> is the error or the
    \<^verbatim>\<open>db.Cond\<close> map that \<^verbatim>\<open>One\<close> filled.
\<close>

datatype ('e, 'v) event =
    QueryRowEv string "string list" "'e + ('e + int)"
  | ExecEv string "'e option"
  | InsertExecEv string "string list" "'v option list" "'e option"
  | InsertReturningEv string "string list" "'v option list" "string list"
      "'e + (string \<rightharpoonup> 'v option)"

text \<open>
  The collaborators of \<^verbatim>\<open>Insert\<close> that this file does not define, as parameters.
  \<open>sqlbuilder_Map\<close> is \<^verbatim>\<open>sqlbuilder.Map(item, nil)\<close>.  The other four are the answers
  of the backend; each sees the log so far, so an answer may depend on everything that
  was executed before.
\<close>

record ('e, 'v, 'i) database =
  sqlbuilder_Map :: "'i \<Rightarrow> 'e + (string list \<times> 'v option list)"
  QueryRow :: "('e, 'v) event list \<Rightarrow> string \<Rightarrow> string list \<Rightarrow> 'e + ('e + int)"
  Exec :: "('e, 'v) event list \<Rightarrow> string \<Rightarrow> 'e option"
  InsertExec ::
    "('e, 'v) event list \<Rightarrow> string \<Rightarrow> string list \<Rightarrow> 'v option list \<Rightarrow> 'e option"
  InsertReturning ::
    "('e, 'v) event list \<Rightarrow> string \<Rightarrow> string list \<Rightarrow> 'v option list \<Rightarrow> string list
       \<Rightarrow> 'e + (string \<rightharpoonup> 'v option)"

text \<open>
  \<^verbatim>\<open>type table struct\<close>.  \<open>PrimaryKeys\<close> is what \<^verbatim>\<open>t.BaseCollection.PrimaryKeys()\<close>
  returns; \<open>hasIdentityColumn\<close> is the \<^verbatim>\<open>*bool\<close>, \<open>None\<close> being the nil pointer.
\<close>

record table =
  name :: string
  PrimaryKeys :: "string list"
  hasIdentityColumn :: "bool option"

text \<open>
  What \<^verbatim>\<open>Insert\<close> returns as its \<^verbatim>\<open>interface{}\<close>: nil, a single value, or a
  \<^verbatim>\<open>db.Cond\<close> map.
\<close>

datatype 'v result = NilValue | Value 'v | KeyMap "string \<rightharpoonup> 'v option"

datatype ('e, 'v) outcome = Returns "'v result" "'e option" | Panics panic

text \<open>An \<^verbatim>\<open>interface{}\<close> taken out of a map, as a result.\<close>

definition iface :: "'v option \<Rightarrow> 'v result" where
  "iface x = (case x of None \<Rightarrow> NilValue | Some y \<Rightarrow> Value y)"

text \<open>\<^verbatim>\<open>keyMap[k]\<close>: a missing key reads as nil.\<close>

definition index :: "(string \<rightharpoonup> 'v option) \<Rightarrow> string \<Rightarrow> 'v result" where
  "index keyMap k = (case keyMap k of None \<Rightarrow> NilValue | Some x \<Rightarrow> iface x)"

text \<open>
  Lines 74-80, the inner loop \<^verbatim>\<open>for j := 0; j < len(pKey); j++\<close> at column \<open>i\<close> whose
  name is \<open>c\<close>; the first argument is what is left of \<^verbatim>\<open>pKey\<close>.  \<^verbatim>\<open>columnValues[i]\<close>
  panics when \<open>i\<close> is out of range.  \<^verbatim>\<open>break\<close> leaves this loop only.
\<close>

fun pKeyLoop :: "string list \<Rightarrow> string \<Rightarrow> nat \<Rightarrow> 'v option list \<Rightarrow> bool \<Rightarrow> panic + bool" where
  "pKeyLoop [] c i columnValues hasKeys = Inr hasKeys"
| "pKeyLoop (k # ks) c i columnValues hasKeys =
     (if k = c then
        (if i < length columnValues then
           (if columnValues ! i \<noteq> None then Inr True
            else pKeyLoop ks c i columnValues hasKeys)
         else Inl IndexOutOfRange)
      else pKeyLoop ks c i columnValues hasKeys)"

text \<open>Lines 73-82, the outer loop \<^verbatim>\<open>for i := range columnNames\<close>, from index \<open>i\<close> on.\<close>

fun columnLoop ::
  "string list \<Rightarrow> string list \<Rightarrow> nat \<Rightarrow> 'v option list \<Rightarrow> bool \<Rightarrow> panic + bool" where
  "columnLoop pKey [] i columnValues hasKeys = Inr hasKeys"
| "columnLoop pKey (c # cs) i columnValues hasKeys =
     (case pKeyLoop pKey c i columnValues hasKeys of
        Inl p \<Rightarrow> Inl p
      | Inr hasKeys' \<Rightarrow> columnLoop pKey cs (Suc i) columnValues hasKeys')"

text \<open>Lines 72-82: \<^verbatim>\<open>var hasKeys bool\<close> and the two loops.\<close>

definition hasKeys :: "string list \<Rightarrow> string list \<Rightarrow> 'v option list \<Rightarrow> panic + bool" where
  "hasKeys pKey columnNames columnValues = columnLoop pKey columnNames 0 columnValues False"

definition identityColumnsQuery :: string where
  "identityColumnsQuery =
     ''SELECT COUNT(1) FROM sys.identity_columns WHERE OBJECT_NAME(object_id) = ?''"

definition identityInsertOn :: "table \<Rightarrow> string" where
  "identityInsertOn t = ''SET IDENTITY_INSERT '' @ name t @ '' ON''"

definition identityInsertOff :: "table \<Rightarrow> string" where
  "identityInsertOff t = ''SET IDENTITY_INSERT '' @ name t @ '' OFF''"

text \<open>
  Lines 85-106: the block \<^verbatim>\<open>if t.hasIdentityColumn == nil { ... }\<close> and the read of
  \<^verbatim>\<open>*t.hasIdentityColumn\<close> after it.  The result is the error that makes \<^verbatim>\<open>Insert\<close>
  return, or the flag.
\<close>

definition identityColumn ::
  "('e, 'v, 'i) database \<Rightarrow> table \<Rightarrow> ('e, 'v) event list
     \<Rightarrow> ('e + bool) \<times> table \<times> ('e, 'v) event list" where
  "identityColumn d t log =
     (case hasIdentityColumn t of
        Some b \<Rightarrow> (Inr b, t, log)
      | None \<Rightarrow>
          (let r = QueryRow d log identityColumnsQuery [name t];
               log' = log @ [QueryRowEv identityColumnsQuery [name t] r]
           in case r of
                Inl err \<Rightarrow> (Inl err, t, log')
              | Inr (Inl err) \<Rightarrow> (Inl err, t, log')
              | Inr (Inr identityColumns) \<Rightarrow>
                  (Inr (identityColumns > 0),
                   t\<lparr>hasIdentityColumn := Some (identityColumns > 0)\<rparr>, log')))"

text \<open>Lines 115-140: building \<^verbatim>\<open>q\<close>, running it and shaping the result.\<close>

definition insertRow ::
  "('e, 'v, 'i) database \<Rightarrow> table \<Rightarrow> string list \<Rightarrow> 'v option list \<Rightarrow> ('e, 'v) event list
     \<Rightarrow> ('e, 'v) outcome \<times> ('e, 'v) event list" where
  "insertRow d t columnNames columnValues log =
     (let pKey = PrimaryKeys t
      in if length pKey < 1 then
           (let r = InsertExec d log (name t) columnNames columnValues;
                log' = log @ [InsertExecEv (name t) columnNames columnValues r]
            in case r of
                 Some err \<Rightarrow> (Returns NilValue (Some err), log')
               | None \<Rightarrow> (Returns NilValue None, log'))
         else
           (let r = InsertReturning d log (name t) columnNames columnValues pKey;
                log' = log @ [InsertReturningEv (name t) columnNames columnValues pKey r]
            in case r of
                 Inl err \<Rightarrow> (Returns NilValue (Some err), log')
               | Inr keyMap \<Rightarrow>
                   if card (dom keyMap) = 1
                   then (Returns (index keyMap (pKey ! 0)) None, log')
                   else (Returns (KeyMap keyMap) None, log')))"

text \<open>
  Lines 84-113 and the rest of the body under them: the block \<^verbatim>\<open>if hasKeys { ... }\<close>
  followed by the insert.  The \<^verbatim>\<open>defer\<close> of line 111 is registered only once the
  \<^verbatim>\<open>ON\<close> statement has succeeded; the deferred \<^verbatim>\<open>Exec\<close> then runs when \<^verbatim>\<open>Insert\<close>
  leaves, after the result has been fixed, and its own result is dropped.
\<close>

definition explicitKeyInsert ::
  "('e, 'v, 'i) database \<Rightarrow> table \<Rightarrow> string list \<Rightarrow> 'v option list \<Rightarrow> ('e, 'v) event list
     \<Rightarrow> ('e, 'v) outcome \<times> table \<times> ('e, 'v) event list" where
  "explicitKeyInsert d t columnNames columnValues log =
     (case identityColumn d t log of
        (Inl err, t1, log1) \<Rightarrow> (Returns NilValue (Some err), t1, log1)
      | (Inr b, t1, log1) \<Rightarrow>
          if b then
            (let r = Exec d log1 (identityInsertOn t1);
                 log2 = log1 @ [ExecEv (identityInsertOn t1) r]
             in case r of
                  Some err \<Rightarrow> (Returns NilValue (Some err), t1, log2)
                | None \<Rightarrow>
                    (let (out, log3) = insertRow d t1 columnNames columnValues log2;
                         r' = Exec d log3 (identityInsertOff t1)
                     in (out, t1, log3 @ [ExecEv (identityInsertOff t1) r'])))
          else
            (let (out, log3) = insertRow d t1 columnNames columnValues log1
             in (out, t1, log3)))"

text \<open>
  \<^verbatim>\<open>func (t *table) Insert(item interface{}) (interface{}, error)\<close>.  The table is
  returned as \<^verbatim>\<open>Insert\<close> leaves it, next to the log.
\<close>

definition Insert ::
  "('e, 'v, 'i) database \<Rightarrow> table \<Rightarrow> 'i \<Rightarrow> ('e, 'v) event list
     \<Rightarrow> ('e, 'v) outcome \<times> table \<times> ('e, 'v) event list" where
  "Insert d t item log =
     (case sqlbuilder_Map d item of
        Inl err \<Rightarrow> (Returns NilValue (Some err), t, log)
      | Inr (columnNames, columnValues) \<Rightarrow>
          (case hasKeys (PrimaryKeys t) columnNames columnValues of
             Inl p \<Rightarrow> (Panics p, t, log)
           | Inr True \<Rightarrow> explicitKeyInsert d t columnNames columnValues log
           | Inr False \<Rightarrow>
               (let (out, log') = insertRow d t columnNames columnValues log
                in (out, t, log'))))"

text \<open>
  The words of the specification for the trigger of the explicit-key path: some column
  of the item is named in the primary-key list and carries a non-nil value.
\<close>

definition explicitKey :: "string list \<Rightarrow> string list \<Rightarrow> 'v option list \<Rightarrow> bool" where
  "explicitKey pKey columnNames columnValues =
     (\<exists>i<length columnNames. columnNames ! i \<in> set pKey \<and> columnValues ! i \<noteq> None)"

text \<open>The events of the identity-column machinery, and those of the insert statement.\<close>

fun identity_event :: "('e, 'v) event \<Rightarrow> bool" where
  "identity_event (QueryRowEv q args r) = True"
| "identity_event (ExecEv q r) = True"
| "identity_event (InsertExecEv tbl cols vals r) = False"
| "identity_event (InsertReturningEv tbl cols vals keys r) = False"

fun insert_event :: "('e, 'v) event \<Rightarrow> bool" where
  "insert_event (QueryRowEv q args r) = False"
| "insert_event (ExecEv q r) = False"
| "insert_event (InsertExecEv tbl cols vals r) = True"
| "insert_event (InsertReturningEv tbl cols vals keys r) = True"

text \<open>
  \<open>carriesKey d t item\<close>: the item maps to columns, and they satisfy \<open>explicitKey\<close> for
  the table's primary-key list.  \<open>valuePerColumn d item\<close>: \<^verbatim>\<open>sqlbuilder.Map\<close> returns at
  least one value per column name for the item.
\<close>

definition carriesKey :: "('e, 'v, 'i) database \<Rightarrow> table \<Rightarrow> 'i \<Rightarrow> bool" where
  "carriesKey d t item =
     (case sqlbuilder_Map d item of
        Inl err \<Rightarrow> False
      | Inr (columnNames, columnValues) \<Rightarrow> explicitKey (PrimaryKeys t) columnNames columnValues)"

definition valuePerColumn :: "('e, 'v, 'i) database \<Rightarrow> 'i \<Rightarrow> bool" where
  "valuePerColumn d item =
     (case sqlbuilder_Map d item of
        Inl err \<Rightarrow> True
      | Inr (columnNames, columnValues) \<Rightarrow> length columnNames \<le> length columnValues)"

text \<open>
  A fake backend for the examples.  An item is a list of column names with their
  values; the identity-column query counts \<open>n\<close> columns, every \<^verbatim>\<open>Exec\<close> succeeds, the
  plain insert answers \<open>e\<close> and the insert with returned keys answers \<open>r\<close>.
\<close>

definition fake ::
  "int \<Rightarrow> string option \<Rightarrow> string + (string \<rightharpoonup> int option)
     \<Rightarrow> (string, int, (string \<times> int option) list) database" where
  "fake n e r =
     \<lparr>sqlbuilder_Map = (\<lambda>item. Inr (map fst item, map snd item)),
      QueryRow = (\<lambda>log q args. Inr (Inr n)),
      Exec = (\<lambda>log q. None),
      InsertExec = (\<lambda>log tbl cols vals. e),
      InsertReturning = (\<lambda>log tbl cols vals keys. r)\<rparr>"

section \<open>postgresql/database.go\<close>

subsection \<open>ConvertValues\<close>

text \<open>
  A pointer inside a value is either one the caller passed in (an address), or the
  address of the type switch's own variable \<^verbatim>\<open>v\<close>, which holds a copy of the value it
  was bound to.
\<close>

datatype 'a pointer = Pointer nat | AddressOf 'a

text \<open>
  The values a \<^verbatim>\<open>[]interface{}\<close> can hold, by the case of the type switch (lines
  158-195) that the dynamic type reaches first.  \<open>'f\<close> is \<^verbatim>\<open>float64\<close>; \<open>'x\<close> stands for
  what the code never looks into.

  \<^item> \<open>NilInterface\<close>: the nil interface, which no case matches.
  \<^item> \<open>HandledByPq\<close>: the types of lines 159 and 161.
  \<^item> \<open>WithScannerValuer\<close>: the types of lines 163 and 165, except the five pointer
    types below.
  \<^item> \<open>PInt64Array\<close> ... \<open>PJSONBMap\<close>: \<^verbatim>\<open>*Int64Array\<close>, \<^verbatim>\<open>*StringArray\<close>,
    \<^verbatim>\<open>*Float64Array\<close>, \<^verbatim>\<open>*BoolArray\<close>, \<^verbatim>\<open>*JSONBMap\<close>, which are among the types the
    first four cases leave alone and which the conversions produce.
  \<^item> \<open>PInt64Slice\<close> ... \<open>PMap\<close>: \<^verbatim>\<open>*[]int64\<close>, \<^verbatim>\<open>*[]string\<close>, \<^verbatim>\<open>*[]float64\<close>,
    \<^verbatim>\<open>*[]bool\<close>, \<^verbatim>\<open>*map[string]interface{}\<close> (lines 168-177), by address.
  \<^item> \<open>Int64Slice\<close> ... \<open>MapValue\<close>: \<^verbatim>\<open>[]int64\<close>, \<^verbatim>\<open>[]string\<close>, \<^verbatim>\<open>[]float64\<close>,
    \<^verbatim>\<open>[]bool\<close>, \<^verbatim>\<open>map[string]interface{}\<close> (lines 179-188), by content.
  \<^item> \<open>ValueWrapper\<close>: a \<^verbatim>\<open>sqlbuilder.ValueWrapper\<close> (line 190).
  \<^item> \<open>Other\<close>: anything else (line 193).
\<close>

datatype ('f, 'x) "value" =
    NilInterface
  | HandledByPq 'x
  | WithScannerValuer 'x
  | PInt64Array "64 word list pointer"
  | PStringArray "string list pointer"
  | PFloat64Array "'f list pointer"
  | PBoolArray "bool list pointer"
  | PJSONBMap "(string \<Rightarrow> ('f, 'x) value option) pointer"
  | PInt64Slice nat
  | PStringSlice nat
  | PFloat64Slice nat
  | PBoolSlice nat
  | PMap nat
  | Int64Slice "64 word list"
  | StringSlice "string list"
  | Float64Slice "'f list"
  | BoolSlice "bool list"
  | MapValue "string \<Rightarrow> ('f, 'x) value option"
  | ValueWrapper 'x
  | Other 'x

text \<open>
  The body of the loop, as the new content of \<^verbatim>\<open>values[i]\<close>.  \<open>WrapValue\<close> is the
  method \<^verbatim>\<open>v.WrapValue(v)\<close> of the element and \<open>autoWrap\<close> the function of that name;
  neither is defined in this file, both are parameters.
\<close>

fun convertValue ::
  "('x \<Rightarrow> ('f, 'x) value) \<Rightarrow> (('f, 'x) value \<Rightarrow> ('f, 'x) value) \<Rightarrow> ('f, 'x) value
     \<Rightarrow> ('f, 'x) value" where
  "convertValue WrapValue autoWrap (HandledByPq x) = HandledByPq x"
| "convertValue WrapValue autoWrap (WithScannerValuer x) = WithScannerValuer x"
| "convertValue WrapValue autoWrap (PInt64Array p) = PInt64Array p"
| "convertValue WrapValue autoWrap (PStringArray p) = PStringArray p"
| "convertValue WrapValue autoWrap (PFloat64Array p) = PFloat64Array p"
| "convertValue WrapValue autoWrap (PBoolArray p) = PBoolArray p"
| "convertValue WrapValue autoWrap (PJSONBMap p) = PJSONBMap p"
| "convertValue WrapValue autoWrap (PInt64Slice a) = PInt64Array (Pointer a)"
| "convertValue WrapValue autoWrap (PStringSlice a) = PStringArray (Pointer a)"
| "convertValue WrapValue autoWrap (PFloat64Slice a) = PFloat64Array (Pointer a)"
| "convertValue WrapValue autoWrap (PBoolSlice a) = PBoolArray (Pointer a)"
| "convertValue WrapValue autoWrap (PMap a) = PJSONBMap (Pointer a)"
| "convertValue WrapValue autoWrap (Int64Slice xs) = PInt64Array (AddressOf xs)"
| "convertValue WrapValue autoWrap (StringSlice xs) = PStringArray (AddressOf xs)"
| "convertValue WrapValue autoWrap (Float64Slice xs) = PFloat64Array (AddressOf xs)"
| "convertValue WrapValue autoWrap (BoolSlice xs) = PBoolArray (AddressOf xs)"
| "convertValue WrapValue autoWrap (MapValue m) = PJSONBMap (AddressOf m)"
| "convertValue WrapValue autoWrap (ValueWrapper x) = WrapValue x"
| "convertValue WrapValue autoWrap NilInterface = autoWrap NilInterface"
| "convertValue WrapValue autoWrap (Other x) = autoWrap (Other x)"

text \<open>
  A slice is a window on a backing array: it starts at element \<open>low\<close> of the array and
  has \<open>len\<close> elements.  The caller's slice and the slice \<^verbatim>\<open>ConvertValues\<close> works on are
  the same window on the same array, so the array is passed in and returned.
\<close>

record slice =
  low :: nat
  len :: nat

text \<open>
  \<^verbatim>\<open>func (d *database) ConvertValues(values []interface{}) []interface{}\<close>: the loop
  \<^verbatim>\<open>for i := range values\<close> assigns to \<^verbatim>\<open>values[i]\<close>, and \<^verbatim>\<open>return values\<close> hands the
  same slice back.  The result is the backing array after the call and the returned
  slice.
\<close>

definition ConvertValues ::
  "('x \<Rightarrow> ('f, 'x) value) \<Rightarrow> (('f, 'x) value \<Rightarrow> ('f, 'x) value) \<Rightarrow> ('f, 'x) value list
     \<Rightarrow> slice \<Rightarrow> ('f, 'x) value list \<times> slice" where
  "ConvertValues WrapValue autoWrap array values =
     (fold (\<lambda>i a. a[low values + i := convertValue WrapValue autoWrap (a ! (low values + i))])
        [0..<len values] array,
      values)"

text \<open>What a slice shows of an array.\<close>

definition elements :: "'a list \<Rightarrow> slice \<Rightarrow> 'a list" where
  "elements array s = take (len s) (drop (low s) array)"

text \<open>The values of the first four cases of the switch (lines 159-166).\<close>

fun leftAlone :: "('f, 'x) value \<Rightarrow> bool" where
  "leftAlone (HandledByPq x) = True"
| "leftAlone (WithScannerValuer x) = True"
| "leftAlone (PInt64Array p) = True"
| "leftAlone (PStringArray p) = True"
| "leftAlone (PFloat64Array p) = True"
| "leftAlone (PBoolArray p) = True"
| "leftAlone (PJSONBMap p) = True"
| "leftAlone other = False"

subsection \<open>Err\<close>

text \<open>\<^verbatim>\<open>strings.Contains(s, substr)\<close>: \<open>substr\<close> occurs in \<open>s\<close> as a contiguous run of bytes.\<close>

definition Contains :: "string \<Rightarrow> string \<Rightarrow> bool" where
  "Contains s substr = sublist substr s"

text \<open>
  \<^verbatim>\<open>func (d *database) Err(err error) error\<close>.  \<open>Error\<close> is the method \<^verbatim>\<open>err.Error()\<close> and
  \<open>ErrTooManyClients\<close> the value \<^verbatim>\<open>db.ErrTooManyClients\<close>; both come from outside this file
  and are parameters.
\<close>

definition Err :: "('e \<Rightarrow> string) \<Rightarrow> 'e \<Rightarrow> 'e option \<Rightarrow> 'e option" where
  "Err Error ErrTooManyClients err =
     (case err of
        None \<Rightarrow> None
      | Some e \<Rightarrow>
          (let s = Error e
           in if Contains s ''too many clients''
                 \<or> Contains s ''remaining connection slots are reserved''
                 \<or> Contains s ''too many open''
              then Some ErrTooManyClients
              else Some e))"

section \<open>Properties of the hash cell\<close>

lemma loaded_zero: "loaded hash_zero = None"
  by (simp add: loaded_def hash_zero_def)

lemma loaded_Reset: "loaded (Reset h) = None"
  by (simp add: loaded_def Reset_def)

lemma loaded_nonempty: "loaded h = Some r \<Longrightarrow> r \<noteq> []"
  by (auto simp: loaded_def split: option.splits if_splits)

lemma loaded_store: "s \<noteq> [] \<Longrightarrow> loaded (h\<lparr>v := Some s\<rparr>) = Some s"
  by (simp add: loaded_def)

lemma Hash_hit: "loaded h = Some r \<Longrightarrow> Hash ts ch h i = Inr (r, h)"
  by (simp add: Hash_def)

lemma Hash_miss:
  "loaded h = None \<Longrightarrow>
   Hash ts ch h (Some x) = Inr (ts x @ '':'' @ ch x, h\<lparr>v := Some (ts x @ '':'' @ ch x)\<rparr>)"
  by (simp add: Hash_def Let_def)

lemma Hash_returns_loaded:
  assumes "Hash ts ch h i = Inr (s, h')"
  shows "loaded h' = Some s"
proof (cases "loaded h")
  case None
  with assms obtain x where "i = Some x" and "s = ts x @ '':'' @ ch x"
    and "h' = h\<lparr>v := Some (ts x @ '':'' @ ch x)\<rparr>"
    by (auto simp: Hash_def Let_def split: option.splits)
  then show ?thesis by (simp add: loaded_store)
next
  case (Some r)
  with assms show ?thesis by (simp add: Hash_def)
qed



lemma consistent_zero: "consistent hash_zero s"
  by (simp add: consistent_def loaded_zero)

lemma consistent_Reset: "consistent (Reset h) s"
  by (simp add: consistent_def loaded_Reset)

lemma Hash_consistent:
  assumes "consistent h (ts a @ '':'' @ ch a)" and "ts x = ts a" and "ch x = ch a"
  shows "\<exists>h'. Hash ts ch h (Some x) = Inr (ts a @ '':'' @ ch a, h')
              \<and> consistent h' (ts a @ '':'' @ ch a)"
proof (cases "loaded h")
  case None
  then show ?thesis
    using assms(2,3) by (simp add: Hash_miss consistent_def loaded_store)
next
  case (Some r)
  with assms(1) have "loaded h = Some (ts a @ '':'' @ ch a)"
    by (simp add: consistent_def)
  then show ?thesis
    by (simp add: Hash_hit consistent_def)
qed

lemma run_given_like:
  "consistent h (ts a @ '':'' @ ch a) \<Longrightarrow> given_like ts ch a cs \<Longrightarrow>
   \<exists>h'. run ts ch h cs = Inr (replicate (hash_calls cs) (ts a @ '':'' @ ch a), h')
        \<and> consistent h' (ts a @ '':'' @ ch a)"
proof (induction cs arbitrary: h rule: hash_calls.induct)
  case 1
  then show ?case by simp
next
  case (2 cs)
  then show ?case by (simp add: consistent_Reset)
next
  case (3 i cs)
  from "3.prems"(2) obtain x where i: "i = Some x" and x: "ts x = ts a" "ch x = ch a"
    and rest: "given_like ts ch a cs"
    by (cases i) auto
  from Hash_consistent [OF "3.prems"(1) x]
  obtain h1 where h1: "Hash ts ch h (Some x) = Inr (ts a @ '':'' @ ch a, h1)"
    and c1: "consistent h1 (ts a @ '':'' @ ch a)" by blast
  from "3.IH" [OF c1 rest] obtain h2 where
    "run ts ch h1 cs = Inr (replicate (hash_calls cs) (ts a @ '':'' @ ch a), h2)"
    and "consistent h2 (ts a @ '':'' @ ch a)" by blast
  with h1 i show ?case by simp
qed

lemma given_like_snoc:
  "given_like ts ch a (cs @ [HashCall (Some b)]) =
     (given_like ts ch a cs \<and> ts b = ts a \<and> ch b = ch a)"
  by (induction ts ch a cs rule: given_like.induct) auto

lemma given_like_cong:
  "ts a = ts b \<Longrightarrow> ch a = ch b \<Longrightarrow> given_like ts ch a cs = given_like ts ch b cs"
  by (induction ts ch a cs rule: given_like.induct) auto

lemma hash_calls_snoc: "hash_calls (cs @ [HashCall i]) = Suc (hash_calls cs)"
  by (induction cs rule: hash_calls.induct) auto

text \<open>
  Claim C1.  \<^verbatim>\<open>Hash\<close> computes the fingerprint as the argument's type name, \<open>'':''\<close>
  and its deep content hash.  Take two cells, each starting as the zero value and each
  given, over its whole life (any number of \<^verbatim>\<open>Hash\<close> and \<^verbatim>\<open>Reset\<close> calls), only values
  of one type and one content: values \<open>a\<close> and \<open>b\<close> of the same type and with structurally
  equal content have the same type name and the same content hash, which is all the
  theorem asks of them.  Then every \<^verbatim>\<open>Hash\<close> call on either cell returns, and returns the
  same string \<open>ts a @ '':'' @ ch a\<close>: the two cells agree, and each is stable across
  repeated calls.
\<close>

theorem fingerprint_stable:
  assumes "given_like ts ch a cs1" and "given_like ts ch b cs2"
    and "ts a = ts b" and "ch a = ch b"
  shows "\<exists>h1 h2.
     run ts ch hash_zero (cs1 @ [HashCall (Some a)]) =
       Inr (replicate (Suc (hash_calls cs1)) (ts a @ '':'' @ ch a), h1) \<and>
     run ts ch hash_zero (cs2 @ [HashCall (Some b)]) =
       Inr (replicate (Suc (hash_calls cs2)) (ts a @ '':'' @ ch a), h2)"
proof -
  let ?fp = "ts a @ '':'' @ ch a"
  have g1: "given_like ts ch a (cs1 @ [HashCall (Some a)])"
    using assms(1) by (simp add: given_like_snoc)
  have "given_like ts ch a cs2"
    using assms(2-4) given_like_cong [of ts a b ch cs2] by simp
  then have g2: "given_like ts ch a (cs2 @ [HashCall (Some b)])"
    using assms(3,4) by (simp add: given_like_snoc)
  from run_given_like [OF consistent_zero g1] run_given_like [OF consistent_zero g2]
  show ?thesis by (auto simp: hash_calls_snoc)
qed

theorem fingerprint_stable_witness:
  "given_like fst (fst \<circ> snd) (''*exql.Column'', ''17'', 1::nat)
     [HashCall (Some (''*exql.Column'', ''17'', 1)), ResetCall] \<and>
   given_like fst (fst \<circ> snd) (''*exql.Column'', ''17'', 2::nat) [] \<and>
   fst (''*exql.Column'', ''17'', 1::nat) = fst (''*exql.Column'', ''17'', 2::nat) \<and>
   (fst \<circ> snd) (''*exql.Column'', ''17'', 1::nat) = (fst \<circ> snd) (''*exql.Column'', ''17'', 2::nat) \<and>
   run fst (fst \<circ> snd) hash_zero
     [HashCall (Some (''*exql.Column'', ''17'', 1::nat)), ResetCall,
      HashCall (Some (''*exql.Column'', ''17'', 1))] =
     Inr ([''*exql.Column:17'', ''*exql.Column:17''], \<lparr>v = Some ''*exql.Column:17''\<rparr>) \<and>
   run fst (fst \<circ> snd) hash_zero [HashCall (Some (''*exql.Column'', ''17'', 2::nat))] =
     Inr ([''*exql.Column:17''], \<lparr>v = Some ''*exql.Column:17''\<rparr>)"
  using fingerprint_stable [of fst "fst \<circ> snd" "(''*exql.Column'', ''17'', 1::nat)"
      "[HashCall (Some (''*exql.Column'', ''17'', 1)), ResetCall]"
      "(''*exql.Column'', ''17'', 2::nat)" "[]"]
  by (simp add: Hash_def loaded_def Reset_def hash_zero_def Let_def)

text \<open>
  Claim C2.  After \<^verbatim>\<open>Reset\<close>, whatever the cell held, the next \<^verbatim>\<open>Hash\<close> call behaves as
  on a cell that was never used: on a non-nil argument it returns the fingerprint
  computed from that argument and stores it.  So a string cached before the
  \<^verbatim>\<open>Reset\<close> is not returned unless it is the argument's own fingerprint.
\<close>

theorem reset_recomputes:
  "Hash ts ch (Reset h) i = Hash ts ch hash_zero i \<and>
   Hash ts ch (Reset h) (Some x) =
     Inr (ts x @ '':'' @ ch x, \<lparr>v = Some (ts x @ '':'' @ ch x)\<rparr>) \<and>
   (\<forall>r h'. v h = Some r \<and> r \<noteq> ts x @ '':'' @ ch x \<longrightarrow>
      Hash ts ch (Reset h) (Some x) \<noteq> Inr (r, h'))"
  by (cases i) (auto simp: Hash_def loaded_def Let_def Reset_def hash_zero_def)

theorem reset_recomputes_witness:
  "v \<lparr>v = Some ''*exql.Column:17''\<rparr> = Some ''*exql.Column:17'' \<and>
   ''*exql.Column:17'' \<noteq> fst (''*exql.Column'', ''18'') @ '':'' @ snd (''*exql.Column'', ''18'') \<and>
   Hash fst snd (Reset \<lparr>v = Some ''*exql.Column:17''\<rparr>) (Some (''*exql.Column'', ''18'')) =
     Inr (''*exql.Column:18'', \<lparr>v = Some ''*exql.Column:18''\<rparr>) \<and>
   Hash fst snd (Reset \<lparr>v = Some ''*exql.Column:17''\<rparr>) (Some (''*exql.Column'', ''18'')) \<noteq>
     Inr (''*exql.Column:17'', \<lparr>v = Some ''*exql.Column:17''\<rparr>)"
  using reset_recomputes [of fst snd "\<lparr>v = Some ''*exql.Column:17''\<rparr>"
      "Some (''*exql.Column'', ''18'')" "(''*exql.Column'', ''18'')"]
  by auto

text \<open>
  Claim C9.  A string returned by \<^verbatim>\<open>Hash\<close> is never empty, and once a cell has returned
  \<open>s\<close>, any further sequence of \<^verbatim>\<open>Hash\<close> calls on it, with any arguments (nil included),
  returns \<open>s\<close> every time and leaves the cell as it is: only \<^verbatim>\<open>Reset\<close> invalidates.
\<close>

theorem hash_sticky:
  assumes "Hash ts ch h i = Inr (s, h')"
  shows "s \<noteq> [] \<and> run ts ch h' (map HashCall js) = Inr (replicate (length js) s, h')"
proof -
  have l: "loaded h' = Some s" using assms by (rule Hash_returns_loaded)
  have "run ts ch h' (map HashCall js) = Inr (replicate (length js) s, h')"
    by (induction js) (simp_all add: Hash_hit [OF l])
  with loaded_nonempty [OF l] show ?thesis by simp
qed


theorem hash_sticky_witness:
  "Hash fst snd hash_zero (Some (''*exql.Column'', ''17'')) =
     Inr (''*exql.Column:17'', \<lparr>v = Some ''*exql.Column:17''\<rparr>) \<and>
   ''*exql.Column:17'' \<noteq> [] \<and>
   run fst snd \<lparr>v = Some ''*exql.Column:17''\<rparr>
     (map HashCall [Some (''*exql.Table'', ''99''), None]) =
     Inr (replicate (length [Some (''*exql.Table'', ''99''), None]) ''*exql.Column:17'',
          \<lparr>v = Some ''*exql.Column:17''\<rparr>)"
proof -
  have h: "Hash fst snd hash_zero (Some (''*exql.Column'', ''17'')) =
     Inr (''*exql.Column:17'', \<lparr>v = Some ''*exql.Column:17''\<rparr>)"
    by (simp add: Hash_def loaded_def hash_zero_def Let_def)
  from hash_sticky [OF h, of "[Some (''*exql.Table'', ''99''), None]"] h
  show ?thesis by simp
qed
section \<open>Properties of the MS SQL Insert\<close>

lemma pKeyLoop_result:
  "i < length columnValues \<Longrightarrow>
   pKeyLoop ks c i columnValues hk = Inr (hk \<or> (c \<in> set ks \<and> columnValues ! i \<noteq> None))"
  by (induction ks) auto

lemma pKeyLoop_Nil: "pKeyLoop [] c i columnValues hk = Inr hk"
  by simp

lemma columnLoop_result:
  "i + length cs \<le> length columnValues \<Longrightarrow>
   columnLoop pKey cs i columnValues hk =
     Inr (hk \<or> (\<exists>j<length cs. cs ! j \<in> set pKey \<and> columnValues ! (i + j) \<noteq> None))"
proof (induction cs arbitrary: i hk)
  case Nil
  then show ?case by simp
next
  case (Cons c cs)
  have i: "i < length columnValues" using Cons.prems by simp
  have rest: "Suc i + length cs \<le> length columnValues" using Cons.prems by simp
  have ex: "(\<exists>j<length (c # cs). (c # cs) ! j \<in> set pKey \<and> columnValues ! (i + j) \<noteq> None) =
        ((c \<in> set pKey \<and> columnValues ! i \<noteq> None) \<or>
         (\<exists>j<length cs. cs ! j \<in> set pKey \<and> columnValues ! (Suc i + j) \<noteq> None))"
    by (auto simp: less_Suc_eq_0_disj)
  show ?case
    unfolding ex by (simp add: pKeyLoop_result [OF i] Cons.IH [OF rest] del: add_Suc)
qed

lemma hasKeys_explicitKey:
  "length columnNames \<le> length columnValues \<Longrightarrow>
   hasKeys pKey columnNames columnValues = Inr (explicitKey pKey columnNames columnValues)"
  by (simp add: hasKeys_def explicitKey_def columnLoop_result)

lemma columnLoop_no_keys: "columnLoop [] cs i columnValues hk = Inr hk"
  by (induction cs arbitrary: i) auto

lemma hasKeys_no_keys: "hasKeys [] columnNames columnValues = Inr False"
  by (simp add: hasKeys_def columnLoop_no_keys)

lemma insertRow_shape:
  assumes "insertRow d t cn cv log = (out, log')"
  shows "\<exists>ev res err. log' = log @ [ev] \<and> insert_event ev \<and> out = Returns res err
           \<and> (err \<noteq> None \<longrightarrow> res = NilValue)"
  using assms
  by (auto simp: insertRow_def Let_def split: if_splits option.splits sum.splits)

lemma identityColumn_shape:
  assumes "identityColumn d t log = (r, t1, log1)"
  shows "name t1 = name t \<and> PrimaryKeys t1 = PrimaryKeys t \<and>
         (\<exists>pre. log1 = log @ pre \<and> list_all identity_event pre \<and>
                (\<forall>q. ExecEv q None \<notin> set pre))"
  using assms
  by (auto simp: identityColumn_def Let_def split: option.splits sum.splits)

lemma On_neq_Off: "identityInsertOn t \<noteq> identityInsertOff t"
  by (simp add: identityInsertOn_def identityInsertOff_def)

lemma explicitKeyInsert_shape:
  assumes "explicitKeyInsert d t cn cv log = (out, t', log')"
  shows "(\<exists>pre ins r res err.
            log' = log @ pre @ [ExecEv (identityInsertOn t) None, ins, ExecEv (identityInsertOff t) r]
            \<and> list_all identity_event pre \<and> (\<forall>q. ExecEv q None \<notin> set pre)
            \<and> insert_event ins \<and> out = Returns res err \<and> (err \<noteq> None \<longrightarrow> res = NilValue))
       \<or> (\<exists>pre res err. log' = log @ pre \<and> (\<forall>q. ExecEv q None \<notin> set pre) \<and> out = Returns res err
            \<and> (err \<noteq> None \<longrightarrow> res = NilValue))"
proof -
  obtain r t1 log1 where ic: "identityColumn d t log = (r, t1, log1)"
    by (metis prod_cases3)
  from identityColumn_shape [OF ic] obtain pre where
    n: "name t1 = name t" and l1: "log1 = log @ pre" and ide: "list_all identity_event pre"
    and noex: "\<forall>q. ExecEv q None \<notin> set pre" by blast
  have on: "identityInsertOn t1 = identityInsertOn t" and off: "identityInsertOff t1 = identityInsertOff t"
    using n by (simp_all add: identityInsertOn_def identityInsertOff_def)
  show ?thesis
  proof (cases r)
    case (Inl err)
    with assms ic l1 noex show ?thesis by (auto simp: explicitKeyInsert_def)
  next
    case (Inr b)
    show ?thesis
    proof (cases b)
      case False
      obtain o3 log3 where ir: "insertRow d t1 cn cv log1 = (o3, log3)" by (metis prod.exhaust)
      from insertRow_shape [OF ir] obtain ev res err where
        "log3 = log1 @ [ev]" "insert_event ev" "o3 = Returns res err" "err \<noteq> None \<longrightarrow> res = NilValue"
        by blast
      moreover have "out = o3" "log' = log3"
        using assms ic Inr False ir by (auto simp: explicitKeyInsert_def)
      moreover have "\<forall>q. ExecEv q None \<notin> set (pre @ [ev])"
        using noex \<open>insert_event ev\<close> by (cases ev) auto
      ultimately show ?thesis using l1 by (intro disjI2) (metis append.assoc)
    next
      case True
      show ?thesis
      proof (cases "Exec d log1 (identityInsertOn t1)")
        case (Some err)
        have "out = Returns NilValue (Some err)" "log' = log1 @ [ExecEv (identityInsertOn t1) (Some err)]"
          using assms ic Inr True Some by (auto simp: explicitKeyInsert_def Let_def)
        moreover have "\<forall>q. ExecEv q None \<notin> set (pre @ [ExecEv (identityInsertOn t1) (Some err)])"
          using noex by auto
        ultimately show ?thesis using l1 by (intro disjI2) (metis append.assoc option.distinct(1))
      next
        case None
        let ?log2 = "log1 @ [ExecEv (identityInsertOn t1) None]"
        obtain o3 log3 where ir: "insertRow d t1 cn cv ?log2 = (o3, log3)" by (metis prod.exhaust)
        from insertRow_shape [OF ir] obtain ev res err where
          s: "log3 = ?log2 @ [ev]" "insert_event ev" "o3 = Returns res err" "err \<noteq> None \<longrightarrow> res = NilValue"
          by blast
        have "out = o3" "log' = log3 @ [ExecEv (identityInsertOff t1) (Exec d log3 (identityInsertOff t1))]"
          using assms ic Inr True None ir by (auto simp: explicitKeyInsert_def Let_def)
        with s l1 on off ide noex show ?thesis
          by (intro disjI1) auto
      qed
    qed
  qed
qed

lemma identityColumn_flag:
  assumes "identityColumn d t log = (r, t1, log1)"
  shows "(hasIdentityColumn t = None \<longrightarrow>
            (\<exists>x. log1 = log @ [QueryRowEv identityColumnsQuery [name t] x])) \<and>
         (\<forall>b. hasIdentityColumn t = Some b \<longrightarrow> r = Inr b \<and> t1 = t \<and> log1 = log)"
  using assms
  by (auto simp: identityColumn_def Let_def split: option.splits sum.splits)

lemma explicitKeyInsert_first:
  assumes "explicitKeyInsert d t cn cv log = (out, t', log')"
  shows "(hasIdentityColumn t = None \<longrightarrow>
            (\<exists>x rest. log' = log @ QueryRowEv identityColumnsQuery [name t] x # rest)) \<and>
         (hasIdentityColumn t = Some True \<longrightarrow>
            (\<exists>x rest. log' = log @ ExecEv (identityInsertOn t) x # rest)) \<and>
         (hasIdentityColumn t = Some False \<longrightarrow>
            t' = t \<and> (\<exists>ev. log' = log @ [ev] \<and> insert_event ev))"
proof -
  obtain r t1 log1 where ic: "identityColumn d t log = (r, t1, log1)"
    by (metis prod_cases3)
  obtain o3 log3 where ir: "insertRow d t1 cn cv log1 = (o3, log3)" by (metis prod.exhaust)
  from insertRow_shape [OF ir] obtain ev where ev: "log3 = log1 @ [ev]" "insert_event ev" by blast
  obtain o4 log4 where ir4: "insertRow d t1 cn cv (log1 @ [ExecEv (identityInsertOn t1) None]) = (o4, log4)"
    by (metis prod.exhaust)
  from insertRow_shape [OF ir4] obtain ev4 where
    ev4: "log4 = (log1 @ [ExecEv (identityInsertOn t1) None]) @ [ev4]" by blast
  note f = identityColumn_flag [OF ic]
  have a: "hasIdentityColumn t = None \<Longrightarrow>
      \<exists>x rest. log' = log @ QueryRowEv identityColumnsQuery [name t] x # rest"
  proof -
    assume "hasIdentityColumn t = None"
    with f obtain x where "log1 = log @ [QueryRowEv identityColumnsQuery [name t] x]" by blast
    then show ?thesis
      using assms ic ir ev ir4 ev4
      by (auto simp: explicitKeyInsert_def Let_def split: sum.splits option.splits if_splits)
  qed
  have b: "hasIdentityColumn t = Some True \<Longrightarrow>
      \<exists>x rest. log' = log @ ExecEv (identityInsertOn t) x # rest"
  proof -
    assume "hasIdentityColumn t = Some True"
    with f have "r = Inr True" "t1 = t" "log1 = log" by auto
    then show ?thesis
      using assms ic ir4 ev4
      by (auto simp: explicitKeyInsert_def Let_def split: sum.splits option.splits if_splits)
  qed
  have c: "hasIdentityColumn t = Some False \<Longrightarrow> t' = t \<and> (\<exists>ev. log' = log @ [ev] \<and> insert_event ev)"
  proof -
    assume "hasIdentityColumn t = Some False"
    with f have "r = Inr False" "t1 = t" "log1 = log" by auto
    then show ?thesis
      using assms ic ir ev
      by (auto simp: explicitKeyInsert_def Let_def split: sum.splits option.splits if_splits)
  qed
  from a b c show ?thesis by blast
qed

text \<open>
  Claim C3.  Whenever a call of \<^verbatim>\<open>Insert\<close> has executed
  \<^verbatim>\<open>SET IDENTITY_INSERT <table> ON\<close> with success, the call returns (it does not panic),
  the statement executed right after the toggle is the insert statement, and the last
  statement of the call is \<^verbatim>\<open>SET IDENTITY_INSERT <table> OFF\<close>.  Nothing is assumed
  about the result: the insert may have failed and \<^verbatim>\<open>Insert\<close> may return its error.
\<close>

theorem identity_insert_restored:
  assumes "Insert d t item log = (out, t', log')"
    and "ExecEv (identityInsertOn t) None \<in> set (drop (length log) log')"
  shows "\<exists>pre ins r res err.
           log' = log @ pre @
             [ExecEv (identityInsertOn t) None, ins, ExecEv (identityInsertOff t) r] \<and>
           insert_event ins \<and> out = Returns res err"
proof (cases "sqlbuilder_Map d item")
  case (Inl err)
  with assms show ?thesis by (simp add: Insert_def)
next
  case (Inr p)
  obtain cn cv where p: "p = (cn, cv)" by (cases p)
  show ?thesis
  proof (cases "hasKeys (PrimaryKeys t) cn cv")
    case (Inl pn)
    with assms Inr p show ?thesis by (simp add: Insert_def)
  next
    case hk: (Inr b)
    show ?thesis
    proof (cases b)
      case False
      obtain o3 log3 where ir: "insertRow d t cn cv log = (o3, log3)" by (metis prod.exhaust)
      from insertRow_shape [OF ir] obtain ev where "log3 = log @ [ev]" "insert_event ev" by blast
      moreover have "log' = log3" using assms(1) Inr p hk False ir by (simp add: Insert_def)
      ultimately show ?thesis using assms(2) by (cases ev) auto
    next
      case True
      then have "explicitKeyInsert d t cn cv log = (out, t', log')"
        using assms(1) Inr p hk by (simp add: Insert_def)
      from explicitKeyInsert_shape [OF this] assms(2) show ?thesis by auto
    qed
  qed
qed

text \<open>
  Claim C8.  Whenever \<^verbatim>\<open>Insert\<close> returns a non-nil error, the value it returns with it
  is nil.
\<close>

theorem insert_error_no_result:
  assumes "Insert d t item log = (Returns res (Some err), t', log')"
  shows "res = NilValue"
proof (cases "sqlbuilder_Map d item")
  case (Inl e)
  with assms show ?thesis by (simp add: Insert_def)
next
  case (Inr p)
  obtain cn cv where p: "p = (cn, cv)" by (cases p)
  show ?thesis
  proof (cases "hasKeys (PrimaryKeys t) cn cv")
    case (Inl pn)
    with assms Inr p show ?thesis by (simp add: Insert_def)
  next
    case hk: (Inr b)
    show ?thesis
    proof (cases b)
      case False
      obtain o3 log3 where ir: "insertRow d t cn cv log = (o3, log3)" by (metis prod.exhaust)
      moreover have "o3 = Returns res (Some err)"
        using assms(1) Inr p hk False ir by (simp add: Insert_def)
      ultimately show ?thesis using insertRow_shape [OF ir] by auto
    next
      case True
      then have "explicitKeyInsert d t cn cv log = (Returns res (Some err), t', log')"
        using assms(1) Inr p hk by (simp add: Insert_def)
      from explicitKeyInsert_shape [OF this] show ?thesis by auto
    qed
  qed
qed

text \<open>
  Claim C10.  With an empty primary-key list, \<^verbatim>\<open>Insert\<close> either returns the error of
  \<^verbatim>\<open>sqlbuilder.Map\<close> without touching the backend, or executes exactly one statement,
  the insert without returned keys, and returns nil with that statement's error: nil
  and nil on success.  The table is left as it was.
\<close>

theorem insert_without_keys:
  assumes "PrimaryKeys t = []"
  shows "Insert d t item log =
     (case sqlbuilder_Map d item of
        Inl err \<Rightarrow> (Returns NilValue (Some err), t, log)
      | Inr (columnNames, columnValues) \<Rightarrow>
          (Returns NilValue (InsertExec d log (name t) columnNames columnValues), t,
           log @ [InsertExecEv (name t) columnNames columnValues
                    (InsertExec d log (name t) columnNames columnValues)]))"
  using assms
  by (auto simp: Insert_def hasKeys_no_keys insertRow_def Let_def split: sum.splits option.splits)

lemma insertRow_keys:
  assumes "insertRow d t cn cv log = (Returns res None, log')" and "PrimaryKeys t \<noteq> []"
  shows "\<exists>keyMap. log' = log @ [InsertReturningEv (name t) cn cv (PrimaryKeys t) (Inr keyMap)] \<and>
           res = (if card (dom keyMap) = 1 then index keyMap (PrimaryKeys t ! 0)
                  else KeyMap keyMap)"
  using assms
  by (auto simp: insertRow_def Let_def split: if_splits option.splits sum.splits)

lemma explicitKeyInsert_row:
  assumes "explicitKeyInsert d t cn cv log = (Returns res None, t', log')"
  shows "\<exists>t1 pre post ev. name t1 = name t \<and> PrimaryKeys t1 = PrimaryKeys t \<and>
           insertRow d t1 cn cv (log @ pre) = (Returns res None, log @ pre @ [ev]) \<and>
           log' = log @ pre @ ev # post"
proof -
  obtain r t1 log1 where ic: "identityColumn d t log = (r, t1, log1)"
    by (metis prod_cases3)
  from identityColumn_shape [OF ic] obtain pre where
    n: "name t1 = name t" "PrimaryKeys t1 = PrimaryKeys t" and l1: "log1 = log @ pre" by blast
  show ?thesis
  proof (cases r)
    case (Inl err)
    with assms ic show ?thesis by (auto simp: explicitKeyInsert_def)
  next
    case (Inr b)
    show ?thesis
    proof (cases b)
      case False
      obtain o3 log3 where ir: "insertRow d t1 cn cv log1 = (o3, log3)" by (metis prod.exhaust)
      from insertRow_shape [OF ir] obtain ev where ev: "log3 = log1 @ [ev]" by blast
      have "o3 = Returns res None" "log' = log3"
        using assms ic Inr False ir by (auto simp: explicitKeyInsert_def)
      with ir ev l1 n show ?thesis
        by (intro exI [of _ t1] exI [of _ pre] exI [of _ "[]"] exI [of _ ev]) simp
    next
      case True
      show ?thesis
      proof (cases "Exec d log1 (identityInsertOn t1)")
        case (Some err)
        with assms ic Inr True show ?thesis by (auto simp: explicitKeyInsert_def Let_def)
      next
        case None
        let ?on = "ExecEv (identityInsertOn t1) None"
        obtain o3 log3 where ir: "insertRow d t1 cn cv (log1 @ [?on]) = (o3, log3)"
          by (metis prod.exhaust)
        from insertRow_shape [OF ir] obtain ev where ev: "log3 = (log1 @ [?on]) @ [ev]" by blast
        have "o3 = Returns res None"
          "log' = log3 @ [ExecEv (identityInsertOff t1) (Exec d log3 (identityInsertOff t1))]"
          using assms ic Inr True None ir by (auto simp: explicitKeyInsert_def Let_def)
        with ir ev l1 n show ?thesis
          by (intro exI [of _ t1] exI [of _ "pre @ [?on]"]
              exI [of _ "[ExecEv (identityInsertOff t1) (Exec d log3 (identityInsertOff t1))]"]
              exI [of _ ev]) simp
      qed
    qed
  qed
qed

lemma Insert_row:
  assumes "Insert d t item log = (Returns res None, t', log')"
  shows "\<exists>cn cv t1 pre post ev. sqlbuilder_Map d item = Inr (cn, cv) \<and>
           name t1 = name t \<and> PrimaryKeys t1 = PrimaryKeys t \<and>
           insertRow d t1 cn cv (log @ pre) = (Returns res None, log @ pre @ [ev]) \<and>
           log' = log @ pre @ ev # post"
proof (cases "sqlbuilder_Map d item")
  case (Inl err)
  with assms show ?thesis by (simp add: Insert_def)
next
  case (Inr p)
  obtain cn cv where p: "p = (cn, cv)" by (cases p)
  show ?thesis
  proof (cases "hasKeys (PrimaryKeys t) cn cv")
    case (Inl pn)
    with assms Inr p show ?thesis by (simp add: Insert_def)
  next
    case hk: (Inr b)
    show ?thesis
    proof (cases b)
      case False
      obtain o3 log3 where ir: "insertRow d t cn cv log = (o3, log3)" by (metis prod.exhaust)
      from insertRow_shape [OF ir] obtain ev where ev: "log3 = log @ [ev]" by blast
      have "o3 = Returns res None" "log' = log3"
        using assms(1) Inr p hk False ir by (simp_all add: Insert_def)
      with ir ev Inr p show ?thesis
        by (intro exI [of _ cn] exI [of _ cv] exI [of _ t] exI [of _ "[]"] exI [of _ ev]) simp
    next
      case True
      then have "explicitKeyInsert d t cn cv log = (Returns res None, t', log')"
        using assms(1) Inr p hk by (simp add: Insert_def)
      from explicitKeyInsert_row [OF this] Inr p show ?thesis by blast
    qed
  qed
qed

text \<open>
  Claim C4.  A successful \<^verbatim>\<open>Insert\<close> into a table with a non-empty primary-key list has
  executed the insert statement returning the key columns, and read back a map
  \<open>keyMap\<close>.  When that map has exactly the key columns as its keys: with one key
  column the result is that column's value itself; with a compound key (two or more
  distinct columns) the result is the map from the key columns to their values.
\<close>

theorem insert_result_shape:
  assumes "Insert d t item log = (Returns res None, t', log')"
    and "PrimaryKeys t \<noteq> []"
  shows "\<exists>columnNames columnValues keyMap.
           sqlbuilder_Map d item = Inr (columnNames, columnValues) \<and>
           InsertReturningEv (name t) columnNames columnValues (PrimaryKeys t) (Inr keyMap)
             \<in> set (drop (length log) log') \<and>
           (dom keyMap = set (PrimaryKeys t) \<longrightarrow>
              (length (PrimaryKeys t) = 1 \<longrightarrow>
                 (\<exists>g. keyMap (PrimaryKeys t ! 0) = Some g \<and> res = iface g)) \<and>
              (1 < length (PrimaryKeys t) \<and> distinct (PrimaryKeys t) \<longrightarrow> res = KeyMap keyMap))"
proof -
  from Insert_row [OF assms(1)] obtain cn cv t1 pre post ev where
    m: "sqlbuilder_Map d item = Inr (cn, cv)" and n: "name t1 = name t"
    and k: "PrimaryKeys t1 = PrimaryKeys t"
    and ir: "insertRow d t1 cn cv (log @ pre) = (Returns res None, log @ pre @ [ev])"
    and l: "log' = log @ pre @ ev # post" by blast
  from insertRow_keys [OF ir] assms(2) k obtain keyMap where
    ev: "ev = InsertReturningEv (name t) cn cv (PrimaryKeys t) (Inr keyMap)"
    and res: "res = (if card (dom keyMap) = 1 then index keyMap (PrimaryKeys t ! 0)
                     else KeyMap keyMap)"
    using n by auto
  have single: "\<exists>g. keyMap (PrimaryKeys t ! 0) = Some g \<and> res = iface g"
    if "dom keyMap = set (PrimaryKeys t)" "length (PrimaryKeys t) = 1"
  proof -
    from that(2) obtain k0 where k0: "PrimaryKeys t = [k0]"
      by (cases "PrimaryKeys t") auto
    with that(1) have "dom keyMap = {k0}" by simp
    then obtain g where "keyMap k0 = Some g" by auto
    with res k0 \<open>dom keyMap = {k0}\<close> show ?thesis by (simp add: index_def)
  qed
  have compound: "res = KeyMap keyMap"
    if "dom keyMap = set (PrimaryKeys t)" "1 < length (PrimaryKeys t)" "distinct (PrimaryKeys t)"
  proof -
    from that have "card (dom keyMap) = length (PrimaryKeys t)" by (simp add: distinct_card)
    with that(2) res show ?thesis by simp
  qed
  from m ev l single compound show ?thesis by auto
qed

text \<open>
  Claim C6.  Let \<^verbatim>\<open>sqlbuilder.Map\<close> return a value for every column name.  The flag
  \<^verbatim>\<open>hasKeys\<close> computed by the two loops is exactly: some column of the item is named in
  the primary-key list and carries a non-nil value.  When no column does (or the item
  does not map to columns at all), \<^verbatim>\<open>Insert\<close> executes neither the
  \<^verbatim>\<open>sys.identity_columns\<close> query nor any \<^verbatim>\<open>SET IDENTITY_INSERT\<close>, and leaves the table's
  cached flag alone.  When one does, the identity-column handling is what \<^verbatim>\<open>Insert\<close>
  does first: the \<^verbatim>\<open>sys.identity_columns\<close> query if the flag is not cached yet, the
  \<^verbatim>\<open>ON\<close> toggle if the table is known to have an identity column, and nothing to
  execute if it is known to have none.
\<close>

theorem explicit_key_trigger:
  assumes "Insert d t item log = (out, t', log')" and "valuePerColumn d item"
  shows "(\<forall>columnNames columnValues.
            sqlbuilder_Map d item = Inr (columnNames, columnValues) \<longrightarrow>
            hasKeys (PrimaryKeys t) columnNames columnValues =
              Inr (explicitKey (PrimaryKeys t) columnNames columnValues)) \<and>
         (\<not> carriesKey d t item \<longrightarrow>
            filter identity_event (drop (length log) log') = [] \<and> t' = t) \<and>
         (carriesKey d t item \<and> hasIdentityColumn t = None \<longrightarrow>
            (\<exists>r rest. log' = log @ QueryRowEv identityColumnsQuery [name t] r # rest)) \<and>
         (carriesKey d t item \<and> hasIdentityColumn t = Some True \<longrightarrow>
            (\<exists>r rest. log' = log @ ExecEv (identityInsertOn t) r # rest)) \<and>
         (carriesKey d t item \<and> hasIdentityColumn t = Some False \<longrightarrow>
            filter identity_event (drop (length log) log') = [] \<and> t' = t)"
proof (cases "sqlbuilder_Map d item")
  case (Inl err)
  with assms show ?thesis by (simp add: Insert_def carriesKey_def)
next
  case (Inr p)
  obtain cn cv where p: "p = (cn, cv)" by (cases p)
  have len: "length cn \<le> length cv" using assms(2) Inr p by (simp add: valuePerColumn_def)
  note hk = hasKeys_explicitKey [OF len, of "PrimaryKeys t"]
  have ck: "carriesKey d t item = explicitKey (PrimaryKeys t) cn cv"
    using Inr p by (simp add: carriesKey_def)
  show ?thesis
  proof (cases "explicitKey (PrimaryKeys t) cn cv")
    case False
    obtain o3 log3 where ir: "insertRow d t cn cv log = (o3, log3)" by (metis prod.exhaust)
    from insertRow_shape [OF ir] obtain ev where ev: "log3 = log @ [ev]" "insert_event ev" by blast
    have "log' = log3" "t' = t" using assms(1) Inr p hk False ir by (simp_all add: Insert_def)
    with ev have "filter identity_event (drop (length log) log') = []" by (cases ev) auto
    with False ck hk Inr p \<open>t' = t\<close> show ?thesis by simp
  next
    case True
    then have "explicitKeyInsert d t cn cv log = (out, t', log')"
      using assms(1) Inr p hk by (simp add: Insert_def)
    from explicitKeyInsert_first [OF this] have
      a: "hasIdentityColumn t = None \<longrightarrow>
            (\<exists>x rest. log' = log @ QueryRowEv identityColumnsQuery [name t] x # rest)"
      and b: "hasIdentityColumn t = Some True \<longrightarrow>
            (\<exists>x rest. log' = log @ ExecEv (identityInsertOn t) x # rest)"
      and c: "hasIdentityColumn t = Some False \<longrightarrow>
            t' = t \<and> (\<exists>ev. log' = log @ [ev] \<and> insert_event ev)" by blast+
    have c': "hasIdentityColumn t = Some False \<longrightarrow>
        filter identity_event (drop (length log) log') = [] \<and> t' = t"
    proof
      assume "hasIdentityColumn t = Some False"
      with c obtain ev where "t' = t" "log' = log @ [ev]" "insert_event ev" by blast
      then show "filter identity_event (drop (length log) log') = [] \<and> t' = t"
        by (cases ev) auto
    qed
    from True ck hk Inr p a b c' show ?thesis by simp
  qed
qed

lemmas insert_eval =
  Insert_def explicitKeyInsert_def identityColumn_def insertRow_def hasKeys_def fake_def
  identityInsertOn_def identityInsertOff_def index_def iface_def Let_def

theorem identity_insert_restored_witness:
  "Insert (fake 1 None (Inl ''duplicate key''))
     \<lparr>name = ''users'', PrimaryKeys = [''id''], hasIdentityColumn = None\<rparr>
     [(''id'', Some 7)] [] =
     (Returns NilValue (Some ''duplicate key''),
      \<lparr>name = ''users'', PrimaryKeys = [''id''], hasIdentityColumn = Some True\<rparr>,
      [QueryRowEv identityColumnsQuery [''users''] (Inr (Inr 1)),
       ExecEv ''SET IDENTITY_INSERT users ON'' None,
       InsertReturningEv ''users'' [''id''] [Some 7] [''id''] (Inl ''duplicate key''),
       ExecEv ''SET IDENTITY_INSERT users OFF'' None]) \<and>
   (\<exists>pre ins r res err.
      [QueryRowEv identityColumnsQuery [''users''] (Inr (Inr 1)),
       ExecEv ''SET IDENTITY_INSERT users ON'' None,
       InsertReturningEv ''users'' [''id''] [Some 7] [''id''] (Inl ''duplicate key''),
       ExecEv ''SET IDENTITY_INSERT users OFF'' None] =
      [] @ pre @ [ExecEv ''SET IDENTITY_INSERT users ON'' None, ins,
                  ExecEv ''SET IDENTITY_INSERT users OFF'' r] \<and>
      insert_event ins \<and> Returns NilValue (Some ''duplicate key'') = Returns res err)"
proof -
  let ?t = "\<lparr>name = ''users'', PrimaryKeys = [''id''], hasIdentityColumn = None\<rparr>"
  let ?log = "[QueryRowEv identityColumnsQuery [''users''] (Inr (Inr 1)),
       ExecEv ''SET IDENTITY_INSERT users ON'' None,
       InsertReturningEv ''users'' [''id''] [Some 7] [''id''] (Inl ''duplicate key''),
       ExecEv ''SET IDENTITY_INSERT users OFF'' None]"
  have run: "Insert (fake 1 None (Inl ''duplicate key'')) ?t [(''id'', Some 7)] [] =
     (Returns NilValue (Some ''duplicate key''),
      \<lparr>name = ''users'', PrimaryKeys = [''id''], hasIdentityColumn = Some True\<rparr>, ?log)"
    by (simp add: insert_eval)
  have on: "ExecEv (identityInsertOn ?t) None \<in> set (drop (length []) ?log)"
    by (simp add: identityInsertOn_def)
  from identity_insert_restored [OF run on] run
  show ?thesis by (simp add: identityInsertOn_def identityInsertOff_def)
qed

theorem insert_error_no_result_witness:
  "Insert (fake 0 (Some ''table is read-only'') (Inl ''duplicate key''))
     \<lparr>name = ''users'', PrimaryKeys = [''id''], hasIdentityColumn = Some False\<rparr>
     [(''id'', Some 7), (''email'', None)] [] =
     (Returns NilValue (Some ''duplicate key''),
      \<lparr>name = ''users'', PrimaryKeys = [''id''], hasIdentityColumn = Some False\<rparr>,
      [InsertReturningEv ''users'' [''id'', ''email''] [Some 7, None] [''id'']
         (Inl ''duplicate key'')]) \<and>
   (NilValue :: int result) = NilValue"
proof -
  have run: "Insert (fake 0 (Some ''table is read-only'') (Inl ''duplicate key''))
     \<lparr>name = ''users'', PrimaryKeys = [''id''], hasIdentityColumn = Some False\<rparr>
     [(''id'', Some 7), (''email'', None)] [] =
     (Returns NilValue (Some ''duplicate key''),
      \<lparr>name = ''users'', PrimaryKeys = [''id''], hasIdentityColumn = Some False\<rparr>,
      [InsertReturningEv ''users'' [''id'', ''email''] [Some 7, None] [''id'']
         (Inl ''duplicate key'')])"
    by (simp add: insert_eval)
  from insert_error_no_result [OF run] run show ?thesis by simp
qed

theorem insert_without_keys_witness:
  "PrimaryKeys \<lparr>name = ''audit'', PrimaryKeys = [], hasIdentityColumn = None\<rparr> = [] \<and>
   Insert (fake 1 None (Inl ''unused''))
     \<lparr>name = ''audit'', PrimaryKeys = [], hasIdentityColumn = None\<rparr>
     [(''line'', Some 3)] [] =
     (Returns NilValue None,
      \<lparr>name = ''audit'', PrimaryKeys = [], hasIdentityColumn = None\<rparr>,
      [InsertExecEv ''audit'' [''line''] [Some 3] None])"
  using insert_without_keys [of "\<lparr>name = ''audit'', PrimaryKeys = [], hasIdentityColumn = None\<rparr>"
      "fake 1 None (Inl ''unused'')" "[(''line'', Some 3)]" "[]"]
  by (simp add: fake_def)

theorem insert_result_shape_witness:
  "Insert (fake 0 None (Inr [''id'' \<mapsto> Some 42]))
     \<lparr>name = ''users'', PrimaryKeys = [''id''], hasIdentityColumn = None\<rparr>
     [(''email'', Some 5)] [] =
     (Returns (Value 42) None,
      \<lparr>name = ''users'', PrimaryKeys = [''id''], hasIdentityColumn = None\<rparr>,
      [InsertReturningEv ''users'' [''email''] [Some 5] [''id'']
         (Inr [''id'' \<mapsto> Some 42])]) \<and>
   dom [''id'' \<mapsto> Some (42::int)] = set [''id''] \<and> length [''id''] = 1 \<and>
   [''id'' \<mapsto> Some (42::int)] ([''id''] ! 0) = Some (Some 42) \<and>
   Value (42::int) = iface (Some 42) \<and>
   Insert (fake 0 None (Inr [''a'' \<mapsto> Some 1, ''b'' \<mapsto> Some 2]))
     \<lparr>name = ''pairs'', PrimaryKeys = [''a'', ''b''], hasIdentityColumn = None\<rparr>
     [(''note'', Some 5)] [] =
     (Returns (KeyMap [''a'' \<mapsto> Some 1, ''b'' \<mapsto> Some 2]) None,
      \<lparr>name = ''pairs'', PrimaryKeys = [''a'', ''b''], hasIdentityColumn = None\<rparr>,
      [InsertReturningEv ''pairs'' [''note''] [Some 5] [''a'', ''b'']
         (Inr [''a'' \<mapsto> Some 1, ''b'' \<mapsto> Some 2])]) \<and>
   dom [''a'' \<mapsto> Some (1::int), ''b'' \<mapsto> Some 2] = set [''a'', ''b''] \<and>
   1 < length [''a'', ''b''] \<and> distinct [''a'', ''b'']"
proof -
  let ?t1 = "\<lparr>name = ''users'', PrimaryKeys = [''id''], hasIdentityColumn = None\<rparr>"
  let ?t2 = "\<lparr>name = ''pairs'', PrimaryKeys = [''a'', ''b''], hasIdentityColumn = None\<rparr>"
  have c2: "card (dom [''a'' \<mapsto> Some (1::int), ''b'' \<mapsto> Some 2]) = 2" by simp
  have run1: "Insert (fake 0 None (Inr [''id'' \<mapsto> Some 42])) ?t1 [(''email'', Some 5)] [] =
     (Returns (Value 42) None, ?t1,
      [InsertReturningEv ''users'' [''email''] [Some 5] [''id''] (Inr [''id'' \<mapsto> Some 42])])"
    by (simp add: insert_eval)
  have run2: "Insert (fake 0 None (Inr [''a'' \<mapsto> Some 1, ''b'' \<mapsto> Some 2])) ?t2
       [(''note'', Some 5)] [] =
     (Returns (KeyMap [''a'' \<mapsto> Some 1, ''b'' \<mapsto> Some 2]) None, ?t2,
      [InsertReturningEv ''pairs'' [''note''] [Some 5] [''a'', ''b'']
         (Inr [''a'' \<mapsto> Some 1, ''b'' \<mapsto> Some 2])])"
    by (simp add: insert_eval c2 del: dom_fun_upd)
  have ne1: "PrimaryKeys ?t1 \<noteq> []" and ne2: "PrimaryKeys ?t2 \<noteq> []" by simp_all
  from insert_result_shape [OF run1 ne1] insert_result_shape [OF run2 ne2] run1 run2
  show ?thesis by (auto simp: iface_def)
qed

theorem explicit_key_trigger_witness:
  "valuePerColumn (fake 2 None (Inr [''id'' \<mapsto> Some 7])) [(''email'', None), (''id'', Some 7)] \<and>
   carriesKey (fake 2 None (Inr [''id'' \<mapsto> Some 7]))
     \<lparr>name = ''users'', PrimaryKeys = [''id''], hasIdentityColumn = None\<rparr>
     [(''email'', None), (''id'', Some 7)] \<and>
   hasKeys [''id''] [''email'', ''id''] [None, Some (7::int)] = Inr True \<and>
   Insert (fake 2 None (Inr [''id'' \<mapsto> Some 7]))
     \<lparr>name = ''users'', PrimaryKeys = [''id''], hasIdentityColumn = None\<rparr>
     [(''email'', None), (''id'', Some 7)] [] =
     (Returns (Value 7) None,
      \<lparr>name = ''users'', PrimaryKeys = [''id''], hasIdentityColumn = Some True\<rparr>,
      [QueryRowEv identityColumnsQuery [''users''] (Inr (Inr 2)),
       ExecEv ''SET IDENTITY_INSERT users ON'' None,
       InsertReturningEv ''users'' [''email'', ''id''] [None, Some 7] [''id'']
         (Inr [''id'' \<mapsto> Some 7]),
       ExecEv ''SET IDENTITY_INSERT users OFF'' None]) \<and>
   \<not> carriesKey (fake 2 None (Inr [''id'' \<mapsto> Some 7]))
     \<lparr>name = ''users'', PrimaryKeys = [''id''], hasIdentityColumn = None\<rparr>
     [(''email'', Some 1), (''id'', None)] \<and>
   filter identity_event (drop (length [])
     (snd (snd (Insert (fake 2 None (Inr [''id'' \<mapsto> Some 7]))
        \<lparr>name = ''users'', PrimaryKeys = [''id''], hasIdentityColumn = None\<rparr>
        [(''email'', Some 1), (''id'', None)] [])))) = []"
proof -
  let ?d = "fake 2 None (Inr [''id'' \<mapsto> Some 7])"
  let ?t = "\<lparr>name = ''users'', PrimaryKeys = [''id''], hasIdentityColumn = None\<rparr>"
  let ?a = "[(''email'', None), (''id'', Some (7::int))]"
  let ?b = "[(''email'', Some (1::int)), (''id'', None)]"
  have va: "valuePerColumn ?d ?a" and vb: "valuePerColumn ?d ?b"
    by (simp_all add: valuePerColumn_def fake_def)
  have ca: "carriesKey ?d ?t ?a"
    using hasKeys_explicitKey [of "[''email'', ''id'']" "[None, Some (7::int)]" "[''id'']"]
    by (simp add: carriesKey_def fake_def hasKeys_def)
  have cb: "\<not> carriesKey ?d ?t ?b"
    using hasKeys_explicitKey [of "[''email'', ''id'']" "[Some (1::int), None]" "[''id'']"]
    by (simp add: carriesKey_def fake_def hasKeys_def)
  have runa: "Insert ?d ?t ?a [] =
     (Returns (Value 7) None,
      \<lparr>name = ''users'', PrimaryKeys = [''id''], hasIdentityColumn = Some True\<rparr>,
      [QueryRowEv identityColumnsQuery [''users''] (Inr (Inr 2)),
       ExecEv ''SET IDENTITY_INSERT users ON'' None,
       InsertReturningEv ''users'' [''email'', ''id''] [None, Some 7] [''id'']
         (Inr [''id'' \<mapsto> Some 7]),
       ExecEv ''SET IDENTITY_INSERT users OFF'' None])"
    by (simp add: insert_eval)
  obtain ob tb lb where runb: "Insert ?d ?t ?b [] = (ob, tb, lb)" by (metis prod_cases3)
  have hk: "hasKeys [''id''] [''email'', ''id''] [None, Some (7::int)] = Inr True"
    by (simp add: hasKeys_def)
  from explicit_key_trigger [OF runb vb] cb runb
  have fb: "filter identity_event (drop (length []) (snd (snd (Insert ?d ?t ?b [])))) = []"
    by simp
  from explicit_key_trigger [OF runa va] ca
  have qa: "\<exists>r rest.
      [QueryRowEv identityColumnsQuery [''users''] (Inr (Inr 2)),
       ExecEv ''SET IDENTITY_INSERT users ON'' None,
       InsertReturningEv ''users'' [''email'', ''id''] [None, Some 7] [''id'']
         (Inr [''id'' \<mapsto> Some 7]),
       ExecEv ''SET IDENTITY_INSERT users OFF'' None] =
      [] @ QueryRowEv identityColumnsQuery [name ?t] r # rest"
    by simp
  from qa va ca hk runa cb fb show ?thesis by blast
qed

section \<open>Properties of the PostgreSQL hooks\<close>

lemma convert_fold_length:
  "length (fold (\<lambda>i a. a[l + i := f (a ! (l + i))]) [0..<n] xs) = length xs"
  by (induction n) simp_all

lemma convert_fold_nth:
  "j < length xs \<Longrightarrow>
   fold (\<lambda>i a. a[l + i := f (a ! (l + i))]) [0..<n] xs ! j =
     (if l \<le> j \<and> j < l + n then f (xs ! j) else xs ! j)"
proof (induction n)
  case 0
  then show ?case by auto
next
  case (Suc n)
  let ?a = "fold (\<lambda>i a. a[l + i := f (a ! (l + i))]) [0..<n] xs"
  have len: "length ?a = length xs" by (rule convert_fold_length)
  show ?case
  proof (cases "j = l + n")
    case True
    with Suc len show ?thesis by simp
  next
    case False
    with Suc len show ?thesis by (auto simp: nth_list_update)
  qed
qed

lemma leftAlone_convertValue: "leftAlone x \<Longrightarrow> convertValue W A x = x"
  by (cases x) simp_all

text \<open>
  Claim C5, as the code has it.  \<^verbatim>\<open>ConvertValues\<close> works in place.  It returns the slice
  it was given; in the backing array every element inside the slice has become its
  converted value and every element outside it is as before; so the caller's slice
  now shows the converted values.  An element of a type the first four cases of the
  switch list is left as it is.  The result is a function of the array and the slice:
  equal inputs give equal outputs (a pointer made by \<^verbatim>\<open>&v\<close> being compared by what it
  points to).
\<close>

theorem convert_values_in_place:
  assumes "low values + len values \<le> length array"
  shows "snd (ConvertValues W A array values) = values \<and>
         length (fst (ConvertValues W A array values)) = length array \<and>
         (\<forall>j<length array.
            fst (ConvertValues W A array values) ! j =
              (if low values \<le> j \<and> j < low values + len values
               then convertValue W A (array ! j) else array ! j)) \<and>
         elements (fst (ConvertValues W A array values)) values =
           map (convertValue W A) (elements array values) \<and>
         (\<forall>j<length array.
            leftAlone (array ! j) \<longrightarrow> fst (ConvertValues W A array values) ! j = array ! j) \<and>
         (\<forall>array' values'.
            array' = array \<and> values' = values \<longrightarrow>
            ConvertValues W A array' values' = ConvertValues W A array values)"
proof -
  let ?r = "fst (ConvertValues W A array values)"
  have l: "length ?r = length array"
    by (simp add: ConvertValues_def convert_fold_length)
  have n: "\<forall>j<length array. ?r ! j =
      (if low values \<le> j \<and> j < low values + len values
       then convertValue W A (array ! j) else array ! j)"
    by (simp add: ConvertValues_def convert_fold_nth)
  have "elements ?r values = map (convertValue W A) (elements array values)"
    using assms l n by (auto simp: elements_def intro!: nth_equalityI)
  moreover have "\<forall>j<length array. leftAlone (array ! j) \<longrightarrow> ?r ! j = array ! j"
    using n by (simp add: leftAlone_convertValue)
  ultimately show ?thesis using l n by (simp add: ConvertValues_def)
qed

text \<open>
  Claim C5, as stated, fails: the caller's input is modified.  A slice holding a
  \<^verbatim>\<open>[]int64\<close> holds a \<^verbatim>\<open>*Int64Array\<close> in its place after the call.
\<close>

theorem convert_values_mutates:
  "fst (ConvertValues ValueWrapper id [Int64Slice [1, 2], HandledByPq ()] \<lparr>low = 0, len = 2\<rparr>) =
     [PInt64Array (AddressOf [1, 2]), HandledByPq ()] \<and>
   fst (ConvertValues ValueWrapper id [Int64Slice [1, 2], HandledByPq ()] \<lparr>low = 0, len = 2\<rparr>) \<noteq>
     ([Int64Slice [1, 2], HandledByPq ()] :: (unit, unit) value list)"
  by (simp add: ConvertValues_def upt_rec)

text \<open>
  Claim C7.  \<^verbatim>\<open>Err\<close> returns nil for nil; for a non-nil error whose message contains
  \<open>too many clients\<close>, \<open>remaining connection slots are reserved\<close> or \<open>too many open\<close> it
  returns \<^verbatim>\<open>db.ErrTooManyClients\<close>; every other error is returned as it is.
\<close>

theorem err_translation:
  "Err Error E None = None \<and>
   (\<forall>e. (\<exists>pre post. Error e = pre @ ''too many clients'' @ post) \<or>
        (\<exists>pre post. Error e = pre @ ''remaining connection slots are reserved'' @ post) \<or>
        (\<exists>pre post. Error e = pre @ ''too many open'' @ post)
        \<longrightarrow> Err Error E (Some e) = Some E) \<and>
   (\<forall>e. \<not> (\<exists>pre post. Error e = pre @ ''too many clients'' @ post) \<and>
        \<not> (\<exists>pre post. Error e = pre @ ''remaining connection slots are reserved'' @ post) \<and>
        \<not> (\<exists>pre post. Error e = pre @ ''too many open'' @ post)
        \<longrightarrow> Err Error E (Some e) = Some e)"
  unfolding Err_def Contains_def sublist_def Let_def by auto

lemma not_Contains:
  "\<not> sublist xs ys \<Longrightarrow> \<not> (\<exists>pre post. ys = pre @ xs @ post)"
  by (simp add: sublist_def)

theorem err_translation_witness:
  "(\<exists>pre post. id ''pq: sorry, too many clients already'' = pre @ ''too many clients'' @ post) \<and>
   Err id ''db.ErrTooManyClients'' (Some ''pq: sorry, too many clients already'') =
     Some ''db.ErrTooManyClients'' \<and>
   \<not> (\<exists>pre post. id ''pq: syntax error'' = pre @ ''too many clients'' @ post) \<and>
   \<not> (\<exists>pre post. id ''pq: syntax error'' =
        pre @ ''remaining connection slots are reserved'' @ post) \<and>
   \<not> (\<exists>pre post. id ''pq: syntax error'' = pre @ ''too many open'' @ post) \<and>
   Err id ''db.ErrTooManyClients'' (Some ''pq: syntax error'') = Some ''pq: syntax error'' \<and>
   Err id ''db.ErrTooManyClients'' None = None"
proof -
  have a: "\<exists>pre post. id ''pq: sorry, too many clients already'' =
      pre @ ''too many clients'' @ post"
    by (rule exI [of _ "''pq: sorry, ''"], rule exI [of _ "'' already''"]) simp
  have b1: "\<not> (\<exists>pre post. id ''pq: syntax error'' = pre @ ''too many clients'' @ post)"
    by (rule not_Contains) (simp add: sublist_code)
  have b2: "\<not> (\<exists>pre post. id ''pq: syntax error'' =
      pre @ ''remaining connection slots are reserved'' @ post)"
    by (rule not_Contains) (simp add: sublist_code)
  have b3: "\<not> (\<exists>pre post. id ''pq: syntax error'' = pre @ ''too many open'' @ post)"
    by (rule not_Contains) (simp add: sublist_code)
  from err_translation [of id "''db.ErrTooManyClients''"] a b1 b2 b3
  show ?thesis by blast
qed

theorem convert_values_in_place_witness:
  "low \<lparr>low = 1, len = 2\<rparr> + len \<lparr>low = 1, len = 2\<rparr>
     \<le> length [Other (), StringSlice [''a''], HandledByPq (), PBoolSlice 7 :: (unit, unit) value] \<and>
   ConvertValues ValueWrapper id
     [Other (), StringSlice [''a''], HandledByPq (), PBoolSlice 7 :: (unit, unit) value]
     \<lparr>low = 1, len = 2\<rparr> =
     ([Other (), PStringArray (AddressOf [''a'']), HandledByPq (), PBoolSlice 7],
      \<lparr>low = 1, len = 2\<rparr>) \<and>
   elements [Other (), PStringArray (AddressOf [''a'']), HandledByPq (), PBoolSlice 7 :: (unit, unit) value]
     \<lparr>low = 1, len = 2\<rparr> =
     map (convertValue ValueWrapper id)
       (elements [Other (), StringSlice [''a''], HandledByPq (), PBoolSlice 7] \<lparr>low = 1, len = 2\<rparr>) \<and>
   2 < length [Other (), StringSlice [''a''], HandledByPq (), PBoolSlice 7 :: (unit, unit) value] \<and>
   leftAlone ([Other (), StringSlice [''a''], HandledByPq (), PBoolSlice 7 :: (unit, unit) value] ! 2)"
proof -
  let ?a = "[Other (), StringSlice [''a''], HandledByPq (), PBoolSlice 7 :: (unit, unit) value]"
  let ?s = "\<lparr>low = 1, len = 2\<rparr>"
  have h: "low ?s + len ?s \<le> length ?a" by simp
  have run: "ConvertValues ValueWrapper id ?a ?s =
     ([Other (), PStringArray (AddressOf [''a'']), HandledByPq (), PBoolSlice 7], ?s)"
    by (simp add: ConvertValues_def upt_rec)
  from convert_values_in_place [OF h, of ValueWrapper id] h run
  show ?thesis by simp
qed


end
